theory Spec2Isabelle
  imports Complex_Main
begin

section \<open>Cache-augmented pretraining: cache store, sign-momentum optimizer, schedule, trainer\<close>

text \<open>
  A shallow embedding of \<^verbatim>\<open>model/modeling.py\<close>, \<^verbatim>\<open>training/minato.py\<close> and
  \<^verbatim>\<open>training/trainer.py\<close>. Python exceptions are values of \<open>error\<close>, returned as
  \<open>Inl\<close>; Python floats and the entries of float tensors are real numbers (the rounding
  of float arithmetic is not part of the model, except for the float32 step counter of the
  optimizer, which is modelled exactly); Python integers are \<open>int\<close>.
\<close>

datatype error =
    ValueError string
  | TypeError string
  | RuntimeError string
  | AttributeError string
  | AssertionError
  | IndexError
  | ZeroDivisionError

subsection \<open>Key/value cache tensors (\<^verbatim>\<open>LSWTPreTrainedModel\<close>)\<close>

text \<open>
  A cache tensor has four axes (batch, heads, sequence, head dimension): \<open>entries\<close> is
  nested in that order. \<open>device\<close> is the device string (\<^verbatim>\<open>'cuda'\<close>, \<^verbatim>\<open>'cpu'\<close>) and
  \<open>attached\<close> says whether the tensor still carries autograd history.
\<close>

record 'a kv_tensor =
  entries :: "'a list list list list"
  device :: string
  attached :: bool

text \<open>
  \<^verbatim>\<open>xs[start:]\<close>: a negative start counts from the end, and a start outside the list is
  clamped to its bounds.
\<close>

definition py_slice_from :: "int \<Rightarrow> 'a list \<Rightarrow> 'a list" where
  "py_slice_from start xs =
     (let n = int (length xs);
          s = (if start < 0 then max (start + n) 0 else min start n)
      in drop (nat s) xs)"

text \<open>\<^verbatim>\<open>kv[ :, :, start :, : ]\<close>: the slice acts on the sequence axis only.\<close>

definition slice_seq :: "int \<Rightarrow> 'a kv_tensor \<Rightarrow> 'a kv_tensor" where
  "slice_seq start kv = kv\<lparr>entries := map (map (py_slice_from start)) (entries kv)\<rparr>"

definition detach :: "'a kv_tensor \<Rightarrow> 'a kv_tensor" where
  "detach kv = kv\<lparr>attached := False\<rparr>"

text \<open>\<^verbatim>\<open>kv.to( device=device, non_blocking=non_blocking )\<close>: the copy has the same entries.\<close>

definition to_device :: "string \<Rightarrow> bool \<Rightarrow> 'a kv_tensor \<Rightarrow> 'a kv_tensor" where
  "to_device dev non_blocking kv = kv\<lparr>device := dev\<rparr>"

definition trim_cache :: "'a kv_tensor list \<Rightarrow> int option \<Rightarrow> 'a kv_tensor list" where
  "trim_cache cache trim =
     (case trim of
        Some t \<Rightarrow> map (slice_seq (- t)) cache
      | None \<Rightarrow> cache)"

definition cache_to ::
  "'a kv_tensor list list option \<Rightarrow> string \<Rightarrow> int \<Rightarrow> bool \<Rightarrow> 'a kv_tensor list list option" where
  "cache_to cache dev trim non_blocking =
     (case cache of
        Some layers \<Rightarrow>
          Some (map (map (\<lambda>kv. to_device dev non_blocking (slice_seq (- trim) (detach kv)))) layers)
      | None \<Rightarrow> None)"

text \<open>The sequence length of a tensor: every (batch, head) row holds \<open>L\<close> positions.\<close>

definition seq_length_is :: "nat \<Rightarrow> 'a kv_tensor \<Rightarrow> bool" where
  "seq_length_is L kv = list_all (list_all (\<lambda>row. length row = L)) (entries kv)"

text \<open>The last \<open>k\<close> positions of every row of a tensor of sequence length \<open>L\<close>.\<close>

definition last_positions :: "nat \<Rightarrow> 'a kv_tensor \<Rightarrow> 'a kv_tensor" where
  "last_positions k kv =
     kv\<lparr>entries := map (map (\<lambda>row. drop (length row - k) row)) (entries kv)\<rparr>"

subsection \<open>Backbone forward pass (\<^verbatim>\<open>LSWTModel.forward\<close>)\<close>

text \<open>
  The layers of the network are collaborators with fixed interfaces: \<open>embed\<close> is the
  input embedding followed by the input projection, \<open>blocks\<close> holds one function per
  transformer block (\<^verbatim>\<open>n_layers\<close> is its length), each mapping the running embeddings, the
  layer's cached keys and values and the rotary tables to new embeddings and the layer's new
  keys and values.
\<close>

record ('i, 'h, 'r, 'a) lswt_model =
  embed :: "'i \<Rightarrow> 'h"
  input_norm :: "'h \<Rightarrow> 'h"
  rope_embedding :: "'h \<Rightarrow> 'a kv_tensor list list option \<Rightarrow> 'r"
  blocks :: "('h \<Rightarrow> 'a kv_tensor list option \<Rightarrow> 'r \<Rightarrow> 'h \<times> 'a kv_tensor list) list"
  output_norm :: "'h \<Rightarrow> 'h"

record ('h, 'a) model_output =
  last_hidden_state :: 'h
  past_key_values :: "'a kv_tensor list list"
  hidden_states :: "'h list"

text \<open>
  \<^verbatim>\<open>past_key_values[i] if past_key_values is not None else None\<close>, for an index
  \<open>i \<ge> 0\<close>: reading past the end of the list raises.
\<close>

definition layer_cache ::
  "'a kv_tensor list list option \<Rightarrow> nat \<Rightarrow> error + 'a kv_tensor list option" where
  "layer_cache past i =
     (case past of
        None \<Rightarrow> Inr None
      | Some layers \<Rightarrow> if i < length layers then Inr (Some (layers ! i)) else Inl IndexError)"

text \<open>
  The loop over the layers, from layer \<open>i\<close> on; \<open>hs\<close> and \<open>kvs\<close> are
  \<^verbatim>\<open>hidden_state_list\<close> and \<^verbatim>\<open>past_key_value_list\<close>.
\<close>

fun forward_layers ::
  "('h \<Rightarrow> 'a kv_tensor list option \<Rightarrow> 'r \<Rightarrow> 'h \<times> 'a kv_tensor list) list \<Rightarrow> nat \<Rightarrow>
   'a kv_tensor list list option \<Rightarrow> int option \<Rightarrow> 'r \<Rightarrow> 'h \<Rightarrow> 'h list \<Rightarrow> 'a kv_tensor list list \<Rightarrow>
   error + ('h \<times> 'h list \<times> 'a kv_tensor list list)" where
  "forward_layers [] i past max_key_values rope embeddings hs kvs = Inr (embeddings, hs, kvs)"
| "forward_layers (block # rest) i past max_key_values rope embeddings hs kvs =
     (case layer_cache past i of
        Inl e \<Rightarrow> Inl e
      | Inr curr_key_values \<Rightarrow>
          (case block embeddings curr_key_values rope of
             (embeddings', new_key_values) \<Rightarrow>
               forward_layers rest (Suc i) past max_key_values rope embeddings'
                 (hs @ [embeddings']) (kvs @ [trim_cache new_key_values max_key_values])))"

text \<open>The forward pass from the chosen embeddings on (the input norm and all that follows).\<close>

definition forward_embedded ::
  "('i, 'h, 'r, 'a) lswt_model \<Rightarrow> 'h \<Rightarrow> 'a kv_tensor list list option \<Rightarrow> int option \<Rightarrow>
   error + ('h, 'a) model_output" where
  "forward_embedded m embeddings0 past max_key_values =
     (let embeddings = input_norm m embeddings0;
          rope = rope_embedding m embeddings past
      in case forward_layers (blocks m) 0 past max_key_values rope embeddings [embeddings] [] of
           Inl e \<Rightarrow> Inl e
         | Inr (embeddings', hs, kvs) \<Rightarrow>
             Inr \<lparr>last_hidden_state = output_norm m embeddings',
                  past_key_values = kvs,
                  hidden_states = hs\<rparr>)"

text \<open>
  The two checks on the inputs come first; after them exactly one of the two is present, and
  the ids are embedded when it is the ids.
\<close>

definition forward ::
  "('i, 'h, 'r, 'a) lswt_model \<Rightarrow> 'i option \<Rightarrow> 'h option \<Rightarrow> 'a kv_tensor list list option \<Rightarrow>
   int option \<Rightarrow> error + ('h, 'a) model_output" where
  "forward m input_ids inputs_embeds past max_key_values =
     (case (input_ids, inputs_embeds) of
        (Some ids, Some e) \<Rightarrow>
          Inl (ValueError ''You cannot specify both input_ids and inputs_embeds at the same time'')
      | (None, None) \<Rightarrow>
          Inl (ValueError ''You have to specify either input_ids or inputs_embeds'')
      | (Some ids, None) \<Rightarrow> forward_embedded m (embed m ids) past max_key_values
      | (None, Some e) \<Rightarrow> forward_embedded m e past max_key_values)"

subsection \<open>Tensors of the optimizer (\<^verbatim>\<open>training/minato.py\<close>)\<close>

text \<open>
  Parameters, gradients and moment buffers are real-valued tensors of one axis: \<open>vals\<close>
  lists the entries and \<open>is_cuda\<close> says where the tensor lives. (\<^verbatim>\<open>torch.is_complex\<close> is
  false on such a tensor, so the complex view of the update never applies.) The entries are
  real numbers: the rounding of the float kernels is not part of the model.
\<close>

record tensor =
  vals :: "real list"
  is_cuda :: bool

text \<open>
  A step counter is a tensor of a single float32 entry. The optimizer creates it as \<open>0\<close> and
  only ever adds \<open>1\<close> to it, so its value is a natural number, \<open>count\<close>, and adding \<open>1\<close>
  rounds the sum to the nearest float32, ties to the even significand: \<open>f32_ulp m\<close> is the
  spacing of the float32 numbers around \<open>m\<close> (24 significant bits), \<open>f32_round m\<close> the
  float32 nearest to \<open>m\<close>. (The largest finite float32 plays no part: a count that starts at
  \<open>0\<close> never passes \<open>2^24\<close>.)
\<close>

record step_tensor =
  count :: nat
  step_is_cuda :: bool

fun f32_ulp :: "nat \<Rightarrow> nat" where
  "f32_ulp m = (if m < 2 ^ 24 then 1 else 2 * f32_ulp (m div 2))"

declare f32_ulp.simps [simp del]

definition f32_round :: "nat \<Rightarrow> nat" where
  "f32_round m =
     (let u = f32_ulp m; q = m div u; r = m mod u
      in if 2 * r < u \<or> (2 * r = u \<and> even q) then q * u else (q + 1) * u)"

text \<open>\<^verbatim>\<open>step_t += 1\<close>\<close>

definition f32_succ :: "nat \<Rightarrow> nat" where
  "f32_succ n = f32_round (n + 1)"

text \<open>
  An operand of an in-place elementwise operation is expanded to the size of the tensor
  written to: it has that size already, or a single entry that is repeated; the kernel
  raises a \<^verbatim>\<open>RuntimeError\<close> of its own otherwise, and when its operands live on different
  devices (the name of the kernel stands for its message).
\<close>

definition expand_to :: "nat \<Rightarrow> real list \<Rightarrow> real list option" where
  "expand_to n xs =
     (if length xs = n then Some xs
      else if length xs = 1 then Some (replicate n (hd xs))
      else None)"

definition neg_t :: "tensor \<Rightarrow> tensor" where
  "neg_t t = t\<lparr>vals := map uminus (vals t)\<rparr>"

definition abs_t :: "tensor \<Rightarrow> tensor" where
  "abs_t t = t\<lparr>vals := map abs (vals t)\<rparr>"

definition sign_t :: "tensor \<Rightarrow> tensor" where
  "sign_t t = t\<lparr>vals := map sgn (vals t)\<rparr>"

definition div_scalar :: "tensor \<Rightarrow> real \<Rightarrow> tensor" where
  "div_scalar t c = t\<lparr>vals := map (\<lambda>x. x / c) (vals t)\<rparr>"

text \<open>\<^verbatim>\<open>t.clamp(None, hi)\<close>: an upper bound only.\<close>

definition clamp_max :: "tensor \<Rightarrow> real \<Rightarrow> tensor" where
  "clamp_max t hi = t\<lparr>vals := map (\<lambda>x. min x hi) (vals t)\<rparr>"

text \<open>\<^verbatim>\<open>t.mul_(c)\<close> for a number \<open>c\<close>.\<close>

definition mul_scalar :: "tensor \<Rightarrow> real \<Rightarrow> tensor" where
  "mul_scalar t c = t\<lparr>vals := map (\<lambda>x. x * c) (vals t)\<rparr>"

text \<open>\<^verbatim>\<open>t.add_(other, alpha=a)\<close>: \<open>t + a * other\<close>, written to \<open>t\<close>.\<close>

definition add_scaled :: "tensor \<Rightarrow> tensor \<Rightarrow> real \<Rightarrow> error + tensor" where
  "add_scaled t other a =
     (if is_cuda other \<noteq> is_cuda t then Inl (RuntimeError ''add_'')
      else case expand_to (length (vals t)) (vals other) of
             None \<Rightarrow> Inl (RuntimeError ''add_'')
           | Some os \<Rightarrow> Inr (t\<lparr>vals := map (\<lambda>(x, y). x + a * y) (zip (vals t) os)\<rparr>))"

text \<open>\<^verbatim>\<open>t.addcmul_(t1, t2, value=v)\<close>: \<open>t + v * t1 * t2\<close>, written to \<open>t\<close>.\<close>

definition addcmul :: "tensor \<Rightarrow> tensor \<Rightarrow> tensor \<Rightarrow> real \<Rightarrow> error + tensor" where
  "addcmul t t1 t2 v =
     (if is_cuda t1 \<noteq> is_cuda t \<or> is_cuda t2 \<noteq> is_cuda t then Inl (RuntimeError ''addcmul_'')
      else case (expand_to (length (vals t)) (vals t1), expand_to (length (vals t)) (vals t2)) of
             (Some xs, Some ys) \<Rightarrow>
               Inr (t\<lparr>vals := map (\<lambda>(x, y, z). x + v * y * z) (zip (vals t) (zip xs ys))\<rparr>)
           | _ \<Rightarrow> Inl (RuntimeError ''addcmul_''))"

subsection \<open>The update rule (\<^verbatim>\<open>_single_tensor_minato\<close>)\<close>

text \<open>
  \<^verbatim>\<open>step_size.neg()\<close> with \<^verbatim>\<open>step_size = lr\<close>: the learning rate is a Python float
  (\<^verbatim>\<open>lr: float\<close>; the trainer stores a float in every group), and a float has no attribute
  \<^verbatim>\<open>neg\<close>, so the attribute lookup raises. The function is read as the Python it is written
  in: the \<^verbatim>\<open>torch.compile\<close> decorator is taken to keep its meaning.
\<close>

definition float_neg :: "real \<Rightarrow> error + real" where
  "float_neg step_size = Inl (AttributeError ''neg'')"

text \<open>\<^verbatim>\<open>(exp_avg.abs() / (0.0 + 1e-15)).clamp(None,1)\<close>\<close>

definition ratio_of :: "tensor \<Rightarrow> tensor" where
  "ratio_of exp_avg = clamp_max (div_scalar (abs_t exp_avg) (0 + 1 / 10 ^ 15)) 1"

text \<open>\<^verbatim>\<open>param.addcmul_(exp_avg.sign(), ratio, value=step_size_neg)\<close>, with the results of the body.\<close>

definition sign_step ::
  "tensor \<Rightarrow> tensor \<Rightarrow> step_tensor \<Rightarrow> real \<Rightarrow> error + (tensor \<times> tensor \<times> step_tensor)" where
  "sign_step param exp_avg step_t step_size_neg =
     (case addcmul param (sign_t exp_avg) (ratio_of exp_avg) step_size_neg of
        Inl e \<Rightarrow> Inl e
      | Inr param' \<Rightarrow> Inr (param', exp_avg, step_t))"

text \<open>
  The body of the loop for one parameter: the new parameter, moment and step counter, or the
  exception that ends the call. (An exception is reported alone: the tensors that the call
  had already changed in place by then are not part of the result.)
\<close>

definition update_parameter ::
  "tensor \<Rightarrow> tensor \<Rightarrow> tensor \<Rightarrow> step_tensor \<Rightarrow> real \<Rightarrow> real \<Rightarrow> real \<Rightarrow> bool \<Rightarrow> bool \<Rightarrow>
   error + (tensor \<times> tensor \<times> step_tensor)" where
  "update_parameter param grad0 exp_avg0 step_t0 beta lr weight_decay maximize capturable =
     (let grad = (if \<not> maximize then grad0 else neg_t grad0) in
      if capturable \<and> \<not> (is_cuda param \<and> step_is_cuda step_t0) then Inl AssertionError
      else
        (let step_t = step_t0\<lparr>count := f32_succ (count step_t0)\<rparr>;
             param1 = mul_scalar param (1 - lr * weight_decay)
         in case add_scaled (mul_scalar exp_avg0 beta) grad (1 - beta) of
              Inl e \<Rightarrow> Inl e
            | Inr exp_avg \<Rightarrow>
                (if capturable then
                   (case float_neg lr of
                      Inl e \<Rightarrow> Inl e
                    | Inr step_size_neg \<Rightarrow> sign_step param1 exp_avg step_t step_size_neg)
                 else sign_step param1 exp_avg step_t (- lr))))"

text \<open>
  \<^verbatim>\<open>for i, param in enumerate(params)\<close>: the lists are read at the same index, and a list
  shorter than \<^verbatim>\<open>params\<close> raises \<^verbatim>\<open>IndexError\<close>. The result lists the tensors after the
  in-place updates; entries beyond \<^verbatim>\<open>len(params)\<close> are left as they are.
\<close>

fun single_tensor_minato ::
  "tensor list \<Rightarrow> tensor list \<Rightarrow> tensor list \<Rightarrow> step_tensor list \<Rightarrow> real \<Rightarrow> real \<Rightarrow> real \<Rightarrow>
   bool \<Rightarrow> bool \<Rightarrow> error + (tensor list \<times> tensor list \<times> step_tensor list)" where
  "single_tensor_minato [] grads exp_avgs state_steps beta lr weight_decay maximize capturable =
     Inr ([], exp_avgs, state_steps)"
| "single_tensor_minato (param # params) (grad # grads) (exp_avg # exp_avgs) (step_t # state_steps)
       beta lr weight_decay maximize capturable =
     (case update_parameter param grad exp_avg step_t beta lr weight_decay maximize capturable of
        Inl e \<Rightarrow> Inl e
      | Inr (param', exp_avg', step_t') \<Rightarrow>
          (case single_tensor_minato params grads exp_avgs state_steps
                  beta lr weight_decay maximize capturable of
             Inl e \<Rightarrow> Inl e
           | Inr (params', exp_avgs', state_steps') \<Rightarrow>
               Inr (param' # params', exp_avg' # exp_avgs', step_t' # state_steps')))"
| "single_tensor_minato (param # params) grads exp_avgs state_steps
       beta lr weight_decay maximize capturable =
     Inl IndexError"

text \<open>
  \<^verbatim>\<open>minato\<close>: every entry of \<^verbatim>\<open>state_steps\<close> is a tensor here, so the check on them
  passes and the call goes to \<^verbatim>\<open>_single_tensor_minato\<close>.
\<close>

definition minato ::
  "tensor list \<Rightarrow> tensor list \<Rightarrow> tensor list \<Rightarrow> step_tensor list \<Rightarrow> bool \<Rightarrow> real \<Rightarrow> real \<Rightarrow> real \<Rightarrow>
   bool \<Rightarrow> error + (tensor list \<times> tensor list \<times> step_tensor list)" where
  "minato params grads exp_avgs state_steps capturable beta lr weight_decay maximize =
     single_tensor_minato params grads exp_avgs state_steps beta lr weight_decay maximize capturable"

text \<open>
  The update as the specification words it, entry by entry: the momentum update, the ratio
  clamp, and the parameter step applied to the decayed parameter.
\<close>

definition spec_momentum :: "real \<Rightarrow> real \<Rightarrow> real \<Rightarrow> real" where
  "spec_momentum beta m g = beta * m + (1 - beta) * g"

definition spec_ratio :: "real \<Rightarrow> real" where
  "spec_ratio m = min (\<bar>m\<bar> / (1 / 10 ^ 15)) 1"

definition spec_param :: "real \<Rightarrow> real \<Rightarrow> real \<Rightarrow> real \<Rightarrow> real" where
  "spec_param lr weight_decay x m = x * (1 - lr * weight_decay) - lr * sgn m * spec_ratio m"

subsection \<open>The optimizer object (\<^verbatim>\<open>Minato\<close>)\<close>

text \<open>
  Parameters are objects. A parameter is known by its identity, a number, and \<open>parameters\<close>
  maps every identity to the object behind it: its tensor and its gradient, which is absent,
  sparse or dense. A parameter group lists identities, so a parameter that is listed twice is
  one object, and an update of it in place is seen at both places. The optimizer keeps one
  state dictionary per parameter: \<open>state\<close> maps the parameter's identity to it, and \<open>None\<close> is
  the empty dictionary.
\<close>

datatype gradient = Dense tensor | Sparse tensor

record parameter =
  p_data :: tensor
  p_grad :: "gradient option"

type_synonym parameters = "nat \<Rightarrow> parameter"

record param_state =
  st_step :: step_tensor
  st_exp_avg :: tensor

record param_group =
  group_params :: "nat list"
  group_lr :: real
  group_beta :: real
  group_weight_decay :: real
  group_maximize :: bool
  group_capturable :: bool

record minato_optimizer =
  defaults_capturable :: bool
  param_groups :: "param_group list"
  state :: "nat \<rightharpoonup> param_state"

text \<open>
  The first loop of \<^verbatim>\<open>Minato.step\<close> over a group: parameters without a gradient are
  skipped, a sparse gradient raises, and a parameter with an empty state dictionary gets its
  step counter and a zero moment of its own shape. The result is the state and the lists
  \<^verbatim>\<open>params_with_grad\<close> (of identities) and \<^verbatim>\<open>grads\<close>. The lists \<^verbatim>\<open>exp_avgs\<close> and
  \<^verbatim>\<open>state_steps\<close> hold, at the same indices, the two tensors of the state dictionary of each
  collected parameter, the very objects that the dictionary holds: the model leaves them in
  \<open>state\<close> and finds them by the parameter's identity.
\<close>

definition init_state :: "bool \<Rightarrow> parameter \<Rightarrow> param_state" where
  "init_state capturable_default p =
     \<lparr>st_step = \<lparr>count = 0,
                  step_is_cuda = (if capturable_default then is_cuda (p_data p) else False)\<rparr>,
      st_exp_avg = \<lparr>vals = replicate (length (vals (p_data p))) 0, is_cuda = is_cuda (p_data p)\<rparr>\<rparr>"

fun collect ::
  "bool \<Rightarrow> parameters \<Rightarrow> (nat \<rightharpoonup> param_state) \<Rightarrow> nat list \<Rightarrow>
   error + ((nat \<rightharpoonup> param_state) \<times> nat list \<times> tensor list)" where
  "collect capturable_default objs st [] = Inr (st, [], [])"
| "collect capturable_default objs st (k # ks) =
     (case p_grad (objs k) of
        None \<Rightarrow> collect capturable_default objs st ks
      | Some (Sparse g) \<Rightarrow> Inl (RuntimeError ''Hero does not support sparse gradients'')
      | Some (Dense g) \<Rightarrow>
          (case collect capturable_default objs
                  (case st k of
                     None \<Rightarrow> st(k \<mapsto> init_state capturable_default (objs k))
                   | Some s \<Rightarrow> st) ks of
             Inl e \<Rightarrow> Inl e
           | Inr (st', params_with_grad, grads) \<Rightarrow> Inr (st', k # params_with_grad, g # grads)))"

text \<open>
  The call of \<^verbatim>\<open>minato\<close> on these lists of objects: the loop of
  \<^verbatim>\<open>_single_tensor_minato\<close> takes the objects at index \<open>i\<close>, updates them in place by the
  body \<open>update_parameter\<close>, and goes on; a parameter that is listed twice is therefore updated
  twice, the second time from the tensors the first update left. (A parameter without state
  tensors would have no entry in \<^verbatim>\<open>exp_avgs\<close>; after \<open>collect\<close> every collected parameter
  has one.) For parameters that are listed once this is \<open>minato\<close> on the lists of their
  tensors, as \<open>minato_objects_by_value\<close> below shows.
\<close>

fun minato_objects ::
  "parameters \<Rightarrow> (nat \<rightharpoonup> param_state) \<Rightarrow> nat list \<Rightarrow> tensor list \<Rightarrow> bool \<Rightarrow> real \<Rightarrow> real \<Rightarrow> real \<Rightarrow>
   bool \<Rightarrow> error + (parameters \<times> (nat \<rightharpoonup> param_state))" where
  "minato_objects objs st [] grads capturable beta lr weight_decay maximize = Inr (objs, st)"
| "minato_objects objs st (k # ks) (grad # grads) capturable beta lr weight_decay maximize =
     (case st k of
        None \<Rightarrow> Inl IndexError
      | Some s \<Rightarrow>
          (case update_parameter (p_data (objs k)) grad (st_exp_avg s) (st_step s)
                  beta lr weight_decay maximize capturable of
             Inl e \<Rightarrow> Inl e
           | Inr (param', exp_avg', step_t') \<Rightarrow>
               minato_objects (objs(k := (objs k)\<lparr>p_data := param'\<rparr>))
                 (st(k \<mapsto> \<lparr>st_step = step_t', st_exp_avg = exp_avg'\<rparr>))
                 ks grads capturable beta lr weight_decay maximize))"
| "minato_objects objs st (k # ks) [] capturable beta lr weight_decay maximize = Inl IndexError"

text \<open>The body of the loop over \<^verbatim>\<open>self.param_groups\<close>, for one group.\<close>

definition step_group ::
  "bool \<Rightarrow> parameters \<Rightarrow> (nat \<rightharpoonup> param_state) \<Rightarrow> param_group \<Rightarrow>
   error + (parameters \<times> (nat \<rightharpoonup> param_state))" where
  "step_group capturable_default objs st pgroup =
     (case collect capturable_default objs st (group_params pgroup) of
        Inl e \<Rightarrow> Inl e
      | Inr (st1, params_with_grad, grads) \<Rightarrow>
          minato_objects objs st1 params_with_grad grads
            (group_capturable pgroup) (group_beta pgroup) (group_lr pgroup)
            (group_weight_decay pgroup) (group_maximize pgroup))"

fun step_groups ::
  "bool \<Rightarrow> parameters \<Rightarrow> (nat \<rightharpoonup> param_state) \<Rightarrow> param_group list \<Rightarrow>
   error + (parameters \<times> (nat \<rightharpoonup> param_state))" where
  "step_groups capturable_default objs st [] = Inr (objs, st)"
| "step_groups capturable_default objs st (pgroup # groups) =
     (case step_group capturable_default objs st pgroup of
        Inl e \<Rightarrow> Inl e
      | Inr (objs1, st1) \<Rightarrow> step_groups capturable_default objs1 st1 groups)"

text \<open>\<^verbatim>\<open>Minato.step\<close>, called without a closure (as the gradient scaler calls it).\<close>

definition step :: "parameters \<Rightarrow> minato_optimizer \<Rightarrow> error + (parameters \<times> minato_optimizer)" where
  "step objs opt =
     (case step_groups (defaults_capturable opt) objs (state opt) (param_groups opt) of
        Inl e \<Rightarrow> Inl e
      | Inr (objs', st) \<Rightarrow> Inr (objs', opt\<lparr>state := st\<rparr>))"

text \<open>
  Between two calls of \<^verbatim>\<open>step\<close> the backward pass writes the gradients: \<open>set_grads\<close>
  gives every parameter the gradient that \<open>grads\<close> assigns to its identity, and
  \<open>train_steps\<close> runs one call of \<^verbatim>\<open>step\<close> per gradient assignment, stopping at the first
  call that raises. \<open>counter_after\<close> reads a parameter's step counter after such a run.
\<close>

definition set_grads :: "(nat \<Rightarrow> gradient option) \<Rightarrow> parameters \<Rightarrow> parameters" where
  "set_grads grads objs = (\<lambda>k. (objs k)\<lparr>p_grad := grads k\<rparr>)"

fun train_steps ::
  "parameters \<Rightarrow> minato_optimizer \<Rightarrow> (nat \<Rightarrow> gradient option) list \<Rightarrow>
   error + (parameters \<times> minato_optimizer)" where
  "train_steps objs opt [] = Inr (objs, opt)"
| "train_steps objs opt (grads # rest) =
     (case step (set_grads grads objs) opt of
        Inl e \<Rightarrow> Inl e
      | Inr (objs', opt') \<Rightarrow> train_steps objs' opt' rest)"

text \<open>
  The identities that the groups of the optimizer list, in order and with repetitions, and the
  step count that a state dictionary holds for a parameter (zero while the dictionary is
  empty).
\<close>

definition all_pids :: "minato_optimizer \<Rightarrow> nat list" where
  "all_pids opt = concat (map group_params (param_groups opt))"

definition step_count :: "(nat \<rightharpoonup> param_state) \<Rightarrow> nat \<Rightarrow> nat" where
  "step_count st k = (case st k of None \<Rightarrow> 0 | Some s \<Rightarrow> count (st_step s))"

definition counter_after ::
  "parameters \<Rightarrow> minato_optimizer \<Rightarrow> (nat \<Rightarrow> gradient option) list \<Rightarrow> nat \<Rightarrow> error + nat" where
  "counter_after objs opt gradss k =
     (case train_steps objs opt gradss of
        Inl e \<Rightarrow> Inl e
      | Inr (objs', opt') \<Rightarrow> Inr (step_count (state opt') k))"

text \<open>
  Inputs for the examples below: parameters that all hold the tensor \<open>[1]\<close>, a gradient
  assignment that gives every parameter the dense gradient \<open>[0]\<close>, and an eager optimizer
  with learning rate \<open>0\<close> and one group that lists the given identities.
\<close>

definition unit_parameters :: parameters where
  "unit_parameters = (\<lambda>k. \<lparr>p_data = \<lparr>vals = [1], is_cuda = False\<rparr>, p_grad = None\<rparr>)"

definition zero_grads :: "nat \<Rightarrow> gradient option" where
  "zero_grads = (\<lambda>k. Some (Dense \<lparr>vals = [0], is_cuda = False\<rparr>))"

definition fresh_optimizer :: "nat list \<Rightarrow> minato_optimizer" where
  "fresh_optimizer ks =
     \<lparr>defaults_capturable = False,
      param_groups = [\<lparr>group_params = ks, group_lr = 0, group_beta = 9 / 10,
                       group_weight_decay = 0, group_maximize = False,
                       group_capturable = False\<rparr>],
      state = Map.empty\<rparr>"

subsection \<open>Training configuration and trainer (\<^verbatim>\<open>training/trainer.py\<close>)\<close>

text \<open>
  The fields of the training configuration that the trainer reads (the configuration class
  lives outside the three files): integers are Python integers; the token budget and the
  ratios are numbers.
\<close>

record train_config =
  optimizer :: string
  opt_beta_1 :: real
  opt_beta_2 :: real
  opt_eps :: real
  opt_rho :: real
  opt_weight_decay :: real
  batch_size :: int
  batch_size_step :: int
  length_sequence :: int
  lr_warmup_steps :: int
  lr_cooldown_tokens :: real
  lr_cooldown_ratio :: real
  lr_max :: real

text \<open>
  \<^verbatim>\<open>Trainer._load_cache\<close>: one empty slot per accumulation group. Python's \<^verbatim>\<open>//\<close> on
  integers is floor division and raises on a zero divisor; \<^verbatim>\<open>range\<close> of a negative
  number is empty.
\<close>

definition load_cache :: "train_config \<Rightarrow> error + 'a kv_tensor list list option list" where
  "load_cache cfg =
     (if batch_size_step cfg = 0 then Inl ZeroDivisionError
      else Inr (replicate (nat (batch_size cfg div batch_size_step cfg)) None))"


record group_spec =
  spec_params :: "nat list"
  spec_weight_decay :: "real option"




















section \<open>Properties\<close>

subsection \<open>Cache store\<close>

lemma py_slice_from_zero: "py_slice_from 0 xs = xs"
  by (simp add: py_slice_from_def)

lemma py_slice_from_neg:
  assumes "1 \<le> k" and "k \<le> length xs"
  shows "py_slice_from (- int k) xs = drop (length xs - k) xs"
proof -
  have "nat (max (- int k + int (length xs)) 0) = length xs - k"
    using assms by simp
  then show ?thesis
    using assms by (simp add: py_slice_from_def Let_def)
qed

lemma slice_seq_zero: "slice_seq 0 kv = kv"
proof -
  have "map (map (py_slice_from 0)) (entries kv) = entries kv"
    by (simp add: py_slice_from_zero map_idI)
  then show ?thesis by (simp add: slice_seq_def)
qed

lemma slice_seq_last:
  assumes "1 \<le> k" and "k \<le> L" and "seq_length_is L kv"
  shows "slice_seq (- int k) kv = last_positions k kv"
proof -
  have "map (map (py_slice_from (- int k))) (entries kv)
        = map (map (\<lambda>row. drop (length row - k) row)) (entries kv)"
    using assms by (auto simp: seq_length_is_def list_all_iff py_slice_from_neg)
  then show ?thesis by (simp add: slice_seq_def last_positions_def)
qed

lemma last_positions_length:
  assumes "k \<le> L" and "seq_length_is L kv"
  shows "seq_length_is k (last_positions k kv)"
  using assms by (auto simp: seq_length_is_def last_positions_def list_all_iff)

text \<open>
  C10: \<^verbatim>\<open>cache_to\<close> maps an absent cache to an absent cache, whatever the device, the trim
  value and the \<^verbatim>\<open>non_blocking\<close> flag; so restoring any slot of the freshly built slot list
  (\<^verbatim>\<open>_load_cache\<close>) leaves the slot list as it is.
\<close>

theorem cache_to_absent:
  "cache_to (None :: 'a kv_tensor list list option) dev trim non_blocking = None
   \<and> (load_cache cfg = Inr (slots :: 'a kv_tensor list list option list)
      \<longrightarrow> map (\<lambda>slot. cache_to slot dev trim non_blocking) slots = slots)"
  by (auto simp: cache_to_def load_cache_def split: if_splits)

theorem cache_to_absent_witness:
  "cache_to (None :: real kv_tensor list list option) ''cuda'' 0 True = None
   \<and> map (\<lambda>slot. cache_to slot ''cuda'' 0 True)
        (replicate 4 (None :: real kv_tensor list list option)) = replicate 4 None"
proof -
  let ?cfg = "\<lparr>optimizer = ''LaProp'', opt_beta_1 = 9 / 10, opt_beta_2 = 99 / 100, opt_eps = 0,
               opt_rho = 0, opt_weight_decay = 0, batch_size = 8, batch_size_step = 2,
               length_sequence = 16, lr_warmup_steps = 2, lr_cooldown_tokens = 1024,
               lr_cooldown_ratio = 1 / 10, lr_max = 1\<rparr>"
  have h: "load_cache ?cfg = Inr (replicate 4 (None :: real kv_tensor list list option))"
    by (simp add: load_cache_def)
  show ?thesis
    using h cache_to_absent [of "''cuda''" 0 True ?cfg "replicate 4 (None :: real kv_tensor list list option)"]
    by simp
qed

text \<open>
  C1 (as amended): for a cache whose tensors have sequence length \<open>L\<close> and a keep value
  \<open>k\<close> with \<open>1 \<le> k \<le> L\<close>, \<^verbatim>\<open>trim_cache\<close> returns tensors of sequence length exactly
  \<open>k\<close> holding the last \<open>k\<close> positions of the input; keep \<open>0\<close> means "no trim" and returns
  the cache unchanged, as does keep \<^verbatim>\<open>None\<close>.
\<close>

theorem trim_cache_tail:
  assumes "list_all (seq_length_is L) cache" and "k \<le> L"
  shows "(1 \<le> k \<longrightarrow>
            trim_cache cache (Some (int k)) = map (last_positions k) cache
          \<and> list_all (seq_length_is k) (trim_cache cache (Some (int k))))
       \<and> trim_cache cache (Some 0) = cache
       \<and> trim_cache cache None = cache"
proof -
  have tail: "trim_cache cache (Some (int k)) = map (last_positions k) cache" if "1 \<le> k"
    using assms that by (auto simp: trim_cache_def list_all_iff slice_seq_last)
  have len: "list_all (seq_length_is k) (map (last_positions k) cache)"
    using assms by (auto simp: list_all_iff last_positions_length)
  have zero: "trim_cache cache (Some 0) = cache"
    by (simp add: trim_cache_def slice_seq_zero map_idI)
  have none: "trim_cache cache None = cache"
    by (simp add: trim_cache_def)
  show ?thesis using tail len zero none by simp
qed

theorem trim_cache_tail_witness:
  "trim_cache [\<lparr>entries = [[[[1], [2], [3 :: real]]]], device = ''cuda'', attached = True\<rparr>] (Some 2)
     = [\<lparr>entries = [[[[2], [3]]]], device = ''cuda'', attached = True\<rparr>]
   \<and> list_all (seq_length_is 2)
       (trim_cache [\<lparr>entries = [[[[1], [2], [3 :: real]]]], device = ''cuda'', attached = True\<rparr>]
          (Some 2))"
proof -
  have h: "list_all (seq_length_is 3)
             [\<lparr>entries = [[[[1], [2], [3 :: real]]]], device = ''cuda'', attached = True\<rparr>]"
    by (simp add: seq_length_is_def)
  show ?thesis
    using trim_cache_tail [OF h, of 2] by (simp add: last_positions_def seq_length_is_def)
qed

text \<open>
  The claim as first stated fails at keep \<open>0\<close>: a cache of sequence length two is returned
  whole, not emptied.
\<close>

theorem trim_cache_zero_counterexample:
  "seq_length_is 2 \<lparr>entries = [[[[1 :: real], [2]]]], device = ''cuda'', attached = True\<rparr>
   \<and> trim_cache [\<lparr>entries = [[[[1 :: real], [2]]]], device = ''cuda'', attached = True\<rparr>] (Some 0)
       = [\<lparr>entries = [[[[1], [2]]]], device = ''cuda'', attached = True\<rparr>]
   \<and> \<not> list_all (seq_length_is 0)
         (trim_cache [\<lparr>entries = [[[[1 :: real], [2]]]], device = ''cuda'', attached = True\<rparr>]
            (Some 0))"
  by (simp add: seq_length_is_def trim_cache_def slice_seq_def py_slice_from_def)

subsection \<open>Forward pass\<close>

lemma layer_cache_no_value_error: "layer_cache past i \<noteq> Inl (ValueError msg)"
  by (simp add: layer_cache_def split: option.splits)

lemma forward_layers_no_value_error:
  "forward_layers bs i past mk rope emb hs kvs \<noteq> Inl (ValueError msg)"
proof (induction bs arbitrary: i emb hs kvs)
  case Nil
  show ?case by simp
next
  case (Cons b bs)
  show ?case
  proof (cases "layer_cache past i")
    case (Inl e)
    with layer_cache_no_value_error [of past i msg] show ?thesis by auto
  next
    case (Inr curr)
    obtain emb' new_kv where blk: "b emb curr rope = (emb', new_kv)"
      by (cases "b emb curr rope")
    show ?thesis using Inr blk Cons.IH by simp
  qed
qed

lemma forward_embedded_no_value_error:
  "forward_embedded m e0 past mk \<noteq> Inl (ValueError msg)"
proof -
  let ?r = "forward_layers (blocks m) 0 past mk (rope_embedding m (input_norm m e0) past)
              (input_norm m e0) [input_norm m e0] []"
  have "?r \<noteq> Inl (ValueError msg)"
    by (rule forward_layers_no_value_error)
  then show ?thesis
    by (cases ?r) (auto simp: forward_embedded_def Let_def)
qed

lemma forward_layers_returns:
  assumes "past = None \<or> (\<exists>layers. past = Some layers \<and> i + length bs \<le> length layers)"
  shows "\<exists>r. forward_layers bs i past mk rope emb hs kvs = Inr r"
  using assms
proof (induction bs arbitrary: i emb hs kvs)
  case Nil
  show ?case by simp
next
  case (Cons b bs)
  from Cons.prems obtain curr where lc: "layer_cache past i = Inr curr"
    by (auto simp: layer_cache_def)
  obtain emb' new_kv where blk: "b emb curr rope = (emb', new_kv)"
    by (cases "b emb curr rope")
  from Cons.prems
  have "past = None \<or> (\<exists>layers. past = Some layers \<and> Suc i + length bs \<le> length layers)"
    by auto
  from Cons.IH [OF this] show ?case using lc blk by simp
qed

lemma forward_embedded_returns:
  assumes "past = None \<or> (\<exists>layers. past = Some layers \<and> length (blocks m) \<le> length layers)"
  shows "\<exists>out. forward_embedded m e0 past mk = Inr out"
proof -
  from assms
  have "past = None \<or> (\<exists>layers. past = Some layers \<and> 0 + length (blocks m) \<le> length layers)"
    by simp
  from forward_layers_returns [OF this]
  obtain r where
    "forward_layers (blocks m) 0 past mk (rope_embedding m (input_norm m e0) past)
       (input_norm m e0) [input_norm m e0] [] = Inr r"
    by blast
  then show ?thesis
    by (cases r) (simp add: forward_embedded_def Let_def)
qed

text \<open>
  C8: the forward pass raises its input \<^verbatim>\<open>ValueError\<close> if and only if both
  \<^verbatim>\<open>input_ids\<close> and \<^verbatim>\<open>inputs_embeds\<close> are supplied or neither is; with exactly one of
  them, and a prior cache that is absent or has a layer for every block, it returns an output.
\<close>

theorem forward_input_check:
  "((\<exists>msg. forward m input_ids inputs_embeds past max_key_values = Inl (ValueError msg))
      \<longleftrightarrow> (input_ids \<noteq> None \<and> inputs_embeds \<noteq> None) \<or> (input_ids = None \<and> inputs_embeds = None))
   \<and> ((input_ids = None) \<noteq> (inputs_embeds = None)
        \<and> (past = None \<or> (\<exists>layers. past = Some layers \<and> length (blocks m) \<le> length layers))
      \<longrightarrow> (\<exists>out. forward m input_ids inputs_embeds past max_key_values = Inr out))"
proof (cases input_ids; cases inputs_embeds)
  assume "input_ids = None" "inputs_embeds = None"
  then show ?thesis by (simp add: forward_def)
next
  fix e assume "input_ids = None" "inputs_embeds = Some e"
  then show ?thesis
    using forward_embedded_no_value_error [of m e past max_key_values]
      forward_embedded_returns [of past m e max_key_values]
    by (simp add: forward_def)
next
  fix ids assume "input_ids = Some ids" "inputs_embeds = None"
  then show ?thesis
    using forward_embedded_no_value_error [of m "embed m ids" past max_key_values]
      forward_embedded_returns [of past m "embed m ids" max_key_values]
    by (simp add: forward_def)
next
  fix ids e assume "input_ids = Some ids" "inputs_embeds = Some e"
  then show ?thesis by (simp add: forward_def)
qed

theorem forward_input_check_witness:
  "(\<exists>msg. forward
       \<lparr>embed = (\<lambda>ids :: nat list. 0 :: real), input_norm = (\<lambda>h. h),
        rope_embedding = (\<lambda>h (past :: real kv_tensor list list option). ()),
        blocks = [\<lambda>h curr rope. (h + 1, [])], output_norm = (\<lambda>h. h)\<rparr>
       (Some [1, 2]) (Some 1) None None = Inl (ValueError msg))
   \<and> (\<exists>out. forward
       \<lparr>embed = (\<lambda>ids :: nat list. 0 :: real), input_norm = (\<lambda>h. h),
        rope_embedding = (\<lambda>h (past :: real kv_tensor list list option). ()),
        blocks = [\<lambda>h curr rope. (h + 1, [])], output_norm = (\<lambda>h. h)\<rparr>
       (Some [1, 2]) None None None = Inr out)"
  using
    forward_input_check [of
       "\<lparr>embed = (\<lambda>ids :: nat list. 0 :: real), input_norm = (\<lambda>h. h),
         rope_embedding = (\<lambda>h (past :: real kv_tensor list list option). ()),
         blocks = [\<lambda>h curr rope. (h + 1, [])], output_norm = (\<lambda>h. h)\<rparr>"
       "Some [1, 2]" "Some 1" None None]
    forward_input_check [of
       "\<lparr>embed = (\<lambda>ids :: nat list. 0 :: real), input_norm = (\<lambda>h. h),
         rope_embedding = (\<lambda>h (past :: real kv_tensor list list option). ()),
         blocks = [\<lambda>h curr rope. (h + 1, [])], output_norm = (\<lambda>h. h)\<rparr>"
       "Some [1, 2]" None None None]
  by simp

subsection \<open>The float32 step counter\<close>

lemma f32_ulp_below: "m < 2 ^ 24 \<Longrightarrow> f32_ulp m = 1"
  by (subst f32_ulp.simps) simp

lemma f32_ulp_binade: "2 ^ 24 \<le> m \<Longrightarrow> m < 2 ^ 25 \<Longrightarrow> f32_ulp m = 2"
proof -
  assume a: "2 ^ 24 \<le> m" "m < 2 ^ 25"
  then have "m div 2 < 2 ^ 24" by simp
  then have "f32_ulp (m div 2) = 1" by (rule f32_ulp_below)
  with a(1) show ?thesis by (subst f32_ulp.simps) simp
qed

lemma f32_round_below: "m < 2 ^ 24 \<Longrightarrow> f32_round m = m"
  by (simp add: f32_round_def f32_ulp_below)

lemma f32_round_top: "f32_round (2 ^ 24) = 2 ^ 24"
proof -
  have "f32_ulp (2 ^ 24) = 2" by (rule f32_ulp_binade) simp_all
  then show ?thesis by (simp add: f32_round_def)
qed

lemma f32_round_past_top: "f32_round (2 ^ 24 + 1) = 2 ^ 24"
proof -
  have "f32_ulp (2 ^ 24 + 1) = 2" by (rule f32_ulp_binade) simp_all
  then show ?thesis by (simp add: f32_round_def)
qed

lemma f32_succ_below: "n < 2 ^ 24 \<Longrightarrow> f32_succ n = n + 1"
proof -
  assume "n < 2 ^ 24"
  then consider "n + 1 < 2 ^ 24" | "n + 1 = 2 ^ 24" by force
  then show ?thesis
  proof cases
    case 1
    then show ?thesis by (simp add: f32_succ_def f32_round_below)
  next
    case 2
    then show ?thesis using f32_round_top by (simp add: f32_succ_def)
  qed
qed

lemma f32_succ_top: "f32_succ (2 ^ 24) = 2 ^ 24"
  using f32_round_past_top by (simp add: f32_succ_def)

lemma f32_succ_zero: "f32_succ 0 = 1"
  using f32_succ_below [of 0] by simp

lemma f32_succ_funpow: "(f32_succ ^^ n) 0 = min n (2 ^ 24)"
proof (induction n)
  case 0
  show ?case by simp
next
  case (Suc n)
  show ?case
  proof (cases "n < 2 ^ 24")
    case True
    with Suc show ?thesis by (simp add: f32_succ_below)
  next
    case False
    with Suc have "(f32_succ ^^ n) 0 = 2 ^ 24" by simp
    with False show ?thesis using f32_succ_top by simp
  qed
qed

subsection \<open>Sign-momentum update\<close>

lemma expand_to_same: "length xs = n \<Longrightarrow> expand_to n xs = Some xs"
  by (simp add: expand_to_def)

lemma add_scaled_same:
  assumes "length (vals other) = length (vals t)" and "is_cuda other = is_cuda t"
  shows "add_scaled t other a = Inr (t\<lparr>vals := map2 (\<lambda>x y. x + a * y) (vals t) (vals other)\<rparr>)"
  using assms by (simp add: add_scaled_def expand_to_same)

lemma addcmul_same:
  assumes "length (vals t1) = length (vals t)" and "length (vals t2) = length (vals t)"
    and "is_cuda t1 = is_cuda t" and "is_cuda t2 = is_cuda t"
  shows "addcmul t t1 t2 v
         = Inr (t\<lparr>vals := map (\<lambda>(x, y, z). x + v * y * z) (zip (vals t) (zip (vals t1) (vals t2)))\<rparr>)"
  using assms by (simp add: addcmul_def expand_to_same)

lemma vals_sign_t: "vals (sign_t m) = map sgn (vals m)"
  by (simp add: sign_t_def)

lemma vals_ratio_of: "vals (ratio_of m) = map spec_ratio (vals m)"
  by (simp add: ratio_of_def clamp_max_def div_scalar_def abs_t_def spec_ratio_def)

lemma is_cuda_sign_ratio: "is_cuda (sign_t m) = is_cuda m" "is_cuda (ratio_of m) = is_cuda m"
  by (simp_all add: sign_t_def ratio_of_def clamp_max_def div_scalar_def abs_t_def)

lemma sign_step_entries:
  "map (\<lambda>(x, y, z). x + - lr * y * z) (zip xs (zip (map sgn ms) (map spec_ratio ms)))
   = map2 (\<lambda>x m. x - lr * sgn m * spec_ratio m) xs ms"
  by (induction xs ms rule: list_induct2') simp_all

lemma sign_step_same:
  assumes "length (vals exp_avg) = length (vals param)" and "is_cuda exp_avg = is_cuda param"
  shows "sign_step param exp_avg step_t (- lr)
         = Inr (param\<lparr>vals := map2 (\<lambda>x m. x - lr * sgn m * spec_ratio m) (vals param) (vals exp_avg)\<rparr>,
                exp_avg, step_t)"
proof -
  have "addcmul param (sign_t exp_avg) (ratio_of exp_avg) (- lr)
        = Inr (param\<lparr>vals := map (\<lambda>(x, y, z). x + - lr * y * z)
                 (zip (vals param) (zip (vals (sign_t exp_avg)) (vals (ratio_of exp_avg))))\<rparr>)"
    by (rule addcmul_same) (simp_all add: assms vals_sign_t vals_ratio_of is_cuda_sign_ratio)
  then have "addcmul param (sign_t exp_avg) (ratio_of exp_avg) (- lr)
        = Inr (param\<lparr>vals := map2 (\<lambda>x m. x - lr * sgn m * spec_ratio m) (vals param) (vals exp_avg)\<rparr>)"
    by (simp only: vals_sign_t vals_ratio_of sign_step_entries)
  then show ?thesis
    by (simp add: sign_step_def)
qed

lemma momentum_entries:
  "map2 (\<lambda>x y. x + (1 - beta) * y) (map (\<lambda>x. x * beta) ms) gs = map2 (spec_momentum beta) ms gs"
  by (induction ms gs rule: list_induct2') (simp_all add: spec_momentum_def)

lemma decay_entries:
  "map2 (\<lambda>x m. x - lr * sgn m * spec_ratio m) (map (\<lambda>x. x * (1 - lr * wd)) xs) ms
   = map2 (spec_param lr wd) xs ms"
  by (induction xs ms rule: list_induct2') (simp_all add: spec_param_def)

lemma update_parameter_eager:
  assumes "length (vals grad) = length (vals param)" and "length (vals exp_avg) = length (vals param)"
    and "is_cuda grad = is_cuda param" and "is_cuda exp_avg = is_cuda param"
  shows "update_parameter param grad exp_avg step_t beta lr wd maximize False
         = Inr (param\<lparr>vals := map2 (spec_param lr wd) (vals param)
                   (map2 (spec_momentum beta) (vals exp_avg)
                      (vals (if maximize then neg_t grad else grad)))\<rparr>,
                exp_avg\<lparr>vals := map2 (spec_momentum beta) (vals exp_avg)
                      (vals (if maximize then neg_t grad else grad))\<rparr>,
                step_t\<lparr>count := f32_succ (count step_t)\<rparr>)"
proof -
  let ?g = "if maximize then neg_t grad else grad"
  have g: "length (vals ?g) = length (vals param)" "is_cuda ?g = is_cuda param"
    using assms by (simp_all add: neg_t_def)
  have "add_scaled (mul_scalar exp_avg beta) ?g (1 - beta)
        = Inr ((mul_scalar exp_avg beta)\<lparr>vals :=
            map2 (\<lambda>x y. x + (1 - beta) * y) (vals (mul_scalar exp_avg beta)) (vals ?g)\<rparr>)"
    by (rule add_scaled_same) (simp_all add: g assms mul_scalar_def)
  then have m: "add_scaled (mul_scalar exp_avg beta) ?g (1 - beta)
        = Inr (exp_avg\<lparr>vals := map2 (spec_momentum beta) (vals exp_avg) (vals ?g)\<rparr>)"
    by (simp add: mul_scalar_def momentum_entries)
  let ?m = "exp_avg\<lparr>vals := map2 (spec_momentum beta) (vals exp_avg) (vals ?g)\<rparr>"
  have "sign_step (mul_scalar param (1 - lr * wd)) ?m (step_t\<lparr>count := f32_succ (count step_t)\<rparr>) (- lr)
        = Inr ((mul_scalar param (1 - lr * wd))\<lparr>vals :=
                 map2 (\<lambda>x m. x - lr * sgn m * spec_ratio m)
                   (vals (mul_scalar param (1 - lr * wd))) (vals ?m)\<rparr>,
               ?m, step_t\<lparr>count := f32_succ (count step_t)\<rparr>)"
    by (rule sign_step_same) (simp_all add: g assms mul_scalar_def)
  then have s: "sign_step (mul_scalar param (1 - lr * wd)) ?m (step_t\<lparr>count := f32_succ (count step_t)\<rparr>) (- lr)
        = Inr (param\<lparr>vals := map2 (spec_param lr wd) (vals param) (vals ?m)\<rparr>,
               ?m, step_t\<lparr>count := f32_succ (count step_t)\<rparr>)"
    by (simp add: mul_scalar_def decay_entries)
  have "update_parameter param grad exp_avg step_t beta lr wd maximize False
        = sign_step (mul_scalar param (1 - lr * wd)) ?m (step_t\<lparr>count := f32_succ (count step_t)\<rparr>) (- lr)"
    unfolding update_parameter_def Let_def using m by (simp split: if_splits)
  then show ?thesis using s by simp
qed

lemma update_parameter_capturable_raises:
  "update_parameter param grad exp_avg step_t beta lr wd maximize True \<noteq> Inr r"
  by (simp add: update_parameter_def Let_def float_neg_def split: sum.splits)

lemma single_tensor_minato_capturable_raises:
  "single_tensor_minato (param # params) grads exp_avgs state_steps beta lr wd maximize True \<noteq> Inr r"
proof (cases grads; cases exp_avgs; cases state_steps)
  fix g gs m ms t ts
  assume "grads = g # gs" "exp_avgs = m # ms" "state_steps = t # ts"
  then show ?thesis
    using update_parameter_capturable_raises [of param g m t beta lr wd maximize]
    by (cases "update_parameter param g m t beta lr wd maximize True") auto
qed simp_all

lemma zero_momentum_entries:
  "list_all (\<lambda>m. m = 0) ms \<Longrightarrow> list_all (\<lambda>g. g = 0) gs \<Longrightarrow> length gs = length ms
   \<Longrightarrow> map2 (spec_momentum beta) ms gs = ms"
  by (induction ms gs rule: list_induct2') (simp_all add: spec_momentum_def)

lemma zero_step_entries:
  "list_all (\<lambda>m. m = 0) ms \<Longrightarrow> length ms = length xs
   \<Longrightarrow> map2 (spec_param lr wd) xs ms = map (\<lambda>x. x * (1 - lr * wd)) xs"
  by (induction xs ms rule: list_induct2') (simp_all add: spec_param_def)

text \<open>
  C4: in an update of one parameter (gradient and moment of the parameter's size and on its
  device), the new parameter is the old one times \<open>1 - lr * weight_decay\<close> with the sign step
  of the new moment subtracted: the decay multiplies the value from before the call, before the
  momentum update and the sign step. Every update that returns gives this parameter, and the
  eager one returns. With zero gradient and zero moment the new parameter is exactly
  \<open>param * (1 - lr * weight_decay)\<close>.
\<close>

theorem weight_decay_before_step:
  assumes "length (vals grad) = length (vals param)" and "length (vals exp_avg) = length (vals param)"
    and "is_cuda grad = is_cuda param" and "is_cuda exp_avg = is_cuda param"
  shows "update_parameter param grad exp_avg step_t beta lr wd maximize False
           = Inr (param\<lparr>vals := map2 (spec_param lr wd) (vals param)
                     (map2 (spec_momentum beta) (vals exp_avg)
                        (vals (if maximize then neg_t grad else grad)))\<rparr>,
                  exp_avg\<lparr>vals := map2 (spec_momentum beta) (vals exp_avg)
                        (vals (if maximize then neg_t grad else grad))\<rparr>,
                  step_t\<lparr>count := f32_succ (count step_t)\<rparr>)
       \<and> (update_parameter param grad exp_avg step_t beta lr wd maximize capturable = Inr r
            \<longrightarrow> fst r = param\<lparr>vals := map2 (spec_param lr wd) (vals param)
                     (map2 (spec_momentum beta) (vals exp_avg)
                        (vals (if maximize then neg_t grad else grad)))\<rparr>)
       \<and> (list_all (\<lambda>g. g = 0) (vals grad) \<and> list_all (\<lambda>m. m = 0) (vals exp_avg)
            \<longrightarrow> update_parameter param grad exp_avg step_t beta lr wd maximize False
                = Inr (mul_scalar param (1 - lr * wd), exp_avg, step_t\<lparr>count := f32_succ (count step_t)\<rparr>))"
proof -
  let ?g = "vals (if maximize then neg_t grad else grad)"
  let ?m = "map2 (spec_momentum beta) (vals exp_avg) ?g"
  have eager: "update_parameter param grad exp_avg step_t beta lr wd maximize False
           = Inr (param\<lparr>vals := map2 (spec_param lr wd) (vals param) ?m\<rparr>,
                  exp_avg\<lparr>vals := ?m\<rparr>, step_t\<lparr>count := f32_succ (count step_t)\<rparr>)"
    using assms by (rule update_parameter_eager)
  have any: "fst r = param\<lparr>vals := map2 (spec_param lr wd) (vals param) ?m\<rparr>"
    if "update_parameter param grad exp_avg step_t beta lr wd maximize capturable = Inr r"
  proof (cases capturable)
    case True
    with that have False
      using update_parameter_capturable_raises [of param grad exp_avg step_t beta lr wd maximize r]
      by simp
    then show ?thesis ..
  next
    case False
    with that eager show ?thesis by auto
  qed
  have zero: "update_parameter param grad exp_avg step_t beta lr wd maximize False
                = Inr (mul_scalar param (1 - lr * wd), exp_avg, step_t\<lparr>count := f32_succ (count step_t)\<rparr>)"
    if z: "list_all (\<lambda>g. g = 0) (vals grad)" "list_all (\<lambda>m. m = 0) (vals exp_avg)"
  proof -
    have gz: "list_all (\<lambda>g. g = 0) ?g"
      using z(1) by (simp add: neg_t_def list_all_iff)
    have gl: "length ?g = length (vals exp_avg)"
      using assms by (simp add: neg_t_def)
    have m: "?m = vals exp_avg"
      using z(2) gz gl by (rule zero_momentum_entries)
    have "map2 (spec_param lr wd) (vals param) (vals exp_avg) = map (\<lambda>x. x * (1 - lr * wd)) (vals param)"
      using z(2) assms(2) by (rule zero_step_entries)
    with eager m show ?thesis by (simp add: mul_scalar_def)
  qed
  show ?thesis using eager any zero by blast
qed

theorem weight_decay_before_step_witness:
  "update_parameter \<lparr>vals = [2], is_cuda = False\<rparr> \<lparr>vals = [0], is_cuda = False\<rparr>
     \<lparr>vals = [0], is_cuda = False\<rparr> \<lparr>count = 0, step_is_cuda = False\<rparr> (9 / 10) (1 / 10) (1 / 2) False False
   = Inr (\<lparr>vals = [19 / 10], is_cuda = False\<rparr>, \<lparr>vals = [0], is_cuda = False\<rparr>,
          \<lparr>count = 1, step_is_cuda = False\<rparr>)"
  using weight_decay_before_step [of "\<lparr>vals = [0], is_cuda = False\<rparr>" "\<lparr>vals = [2], is_cuda = False\<rparr>"
      "\<lparr>vals = [0], is_cuda = False\<rparr>" "\<lparr>count = 0, step_is_cuda = False\<rparr>" "9 / 10" "1 / 10" "1 / 2"
      False False]
  by (simp add: mul_scalar_def spec_param_def spec_momentum_def spec_ratio_def f32_succ_zero)

text \<open>
  C3: on the same inputs (all tensors on the accelerator, \<open>lr = 0.1\<close>) the capturable update
  raises \<^verbatim>\<open>AttributeError\<close> at \<^verbatim>\<open>step_size.neg()\<close>, while the eager update returns the
  new parameter, moment and step counter: the two modes do not give the same results.
\<close>

theorem capturable_raises_where_eager_returns:
  "single_tensor_minato [\<lparr>vals = [1], is_cuda = True\<rparr>] [\<lparr>vals = [1], is_cuda = True\<rparr>]
     [\<lparr>vals = [0], is_cuda = True\<rparr>] [\<lparr>count = 0, step_is_cuda = True\<rparr>] (9 / 10) (1 / 10) 0 False True
   = Inl (AttributeError ''neg'')
   \<and> single_tensor_minato [\<lparr>vals = [1], is_cuda = True\<rparr>] [\<lparr>vals = [1], is_cuda = True\<rparr>]
     [\<lparr>vals = [0], is_cuda = True\<rparr>] [\<lparr>count = 0, step_is_cuda = True\<rparr>] (9 / 10) (1 / 10) 0 False False
   = Inr ([\<lparr>vals = [9 / 10], is_cuda = True\<rparr>], [\<lparr>vals = [1 / 10], is_cuda = True\<rparr>],
          [\<lparr>count = 1, step_is_cuda = True\<rparr>])"
  by (simp add: update_parameter_def Let_def add_scaled_def expand_to_def mul_scalar_def float_neg_def
      sign_step_def addcmul_def sign_t_def ratio_of_def clamp_max_def div_scalar_def abs_t_def
      f32_succ_zero)

subsection \<open>Step counters of the optimizer\<close>

lemma update_parameter_step:
  "update_parameter param grad exp_avg step_t beta lr wd maximize capturable = Inr (p', m', t')
   \<Longrightarrow> t' = step_t\<lparr>count := f32_succ (count step_t)\<rparr>"
  by (auto simp: update_parameter_def Let_def sign_step_def float_neg_def split: if_splits sum.splits)

lemma step_count_update:
  "step_count (st(k0 \<mapsto> \<lparr>st_step = t, st_exp_avg = m\<rparr>)) k
   = (if k = k0 then count t else step_count st k)"
  by (simp add: step_count_def)

lemma minato_objects_facts:
  "minato_objects objs st ks gs capturable beta lr wd maximize = Inr (objs', st') \<Longrightarrow>
     (\<forall>k. p_grad (objs' k) = p_grad (objs k))
   \<and> (\<forall>k. step_count st' k = (f32_succ ^^ count_list ks k) (step_count st k))
   \<and> (\<forall>k. st' k = None \<longleftrightarrow> st k = None)"
proof (induction ks arbitrary: objs st gs)
  case Nil
  then show ?case by simp
next
  case (Cons k0 ks)
  from Cons.prems obtain g gs1 where gs: "gs = g # gs1"
    by (cases gs) simp_all
  from Cons.prems gs obtain s where s: "st k0 = Some s"
    by (cases "st k0") simp_all
  from Cons.prems gs s obtain p1 m1 t1 where
    u: "update_parameter (p_data (objs k0)) g (st_exp_avg s) (st_step s) beta lr wd maximize capturable
        = Inr (p1, m1, t1)"
    by (cases "update_parameter (p_data (objs k0)) g (st_exp_avg s) (st_step s) beta lr wd maximize capturable")
      auto
  let ?objs1 = "objs(k0 := (objs k0)\<lparr>p_data := p1\<rparr>)"
  let ?st1 = "st(k0 \<mapsto> \<lparr>st_step = t1, st_exp_avg = m1\<rparr>)"
  from Cons.prems gs s u
  have r: "minato_objects ?objs1 ?st1 ks gs1 capturable beta lr wd maximize = Inr (objs', st')"
    by simp
  from Cons.IH [OF r]
  have i1: "\<And>k. p_grad (objs' k) = p_grad (?objs1 k)"
    and i2: "\<And>k. step_count st' k = (f32_succ ^^ count_list ks k) (step_count ?st1 k)"
    and i3: "\<And>k. st' k = None \<longleftrightarrow> ?st1 k = None"
    by blast+
  have t1: "count t1 = f32_succ (step_count st k0)"
    using update_parameter_step [OF u] s by (simp add: step_count_def)
  have c1: "p_grad (objs' k) = p_grad (objs k)" for k
    using i1 [of k] by simp
  have c2: "step_count st' k = (f32_succ ^^ count_list (k0 # ks) k) (step_count st k)" for k
  proof (cases "k = k0")
    case True
    have "step_count st' k0 = (f32_succ ^^ count_list ks k0) (f32_succ (step_count st k0))"
      using i2 [of k0] t1 by (simp add: step_count_update)
    then show ?thesis using True by (simp add: funpow_swap1)
  next
    case False
    then show ?thesis using i2 [of k] by (simp add: step_count_update)
  qed
  have c3: "st' k = None \<longleftrightarrow> st k = None" for k
    using i3 [of k] s by (cases "k = k0") simp_all
  show ?case using c1 c2 c3 by blast
qed

lemma count_list_filter:
  "count_list (filter P xs) k = (if P k then count_list xs k else 0)"
  by (induction xs) auto

lemma collect_facts:
  "collect cd objs st ks = Inr (st', pw, gs) \<Longrightarrow>
     pw = filter (\<lambda>k. p_grad (objs k) \<noteq> None) ks
   \<and> length gs = length pw
   \<and> (\<forall>k. step_count st' k = step_count st k)
   \<and> (\<forall>k. st' k = None \<longleftrightarrow> st k = None \<and> k \<notin> set pw)"
proof (induction ks arbitrary: st st' pw gs)
  case Nil
  then show ?case by simp
next
  case (Cons k0 ks)
  show ?case
  proof (cases "p_grad (objs k0)")
    case None
    with Cons.prems have "collect cd objs st ks = Inr (st', pw, gs)" by simp
    from Cons.IH [OF this] None show ?thesis by simp
  next
    case (Some gr)
    show ?thesis
    proof (cases gr)
      case (Sparse g)
      with Some Cons.prems show ?thesis by simp
    next
      case (Dense g)
      define st1 where "st1 = (case st k0 of None \<Rightarrow> st(k0 \<mapsto> init_state cd (objs k0)) | Some s \<Rightarrow> st)"
      from Cons.prems Some Dense obtain pw1 gs1 where
        r: "collect cd objs st1 ks = Inr (st', pw1, gs1)"
        and e: "pw = k0 # pw1" "gs = g # gs1"
        by (auto simp: st1_def split: sum.splits)
      from Cons.IH [OF r]
      have i1: "pw1 = filter (\<lambda>k. p_grad (objs k) \<noteq> None) ks"
        and i2: "length gs1 = length pw1"
        and i3: "\<And>k. step_count st' k = step_count st1 k"
        and i4: "\<And>k. st' k = None \<longleftrightarrow> st1 k = None \<and> k \<notin> set pw1"
        by blast+
      have cnt: "step_count st1 k = step_count st k" for k
        by (simp add: st1_def step_count_def init_state_def split: option.splits)
      have non: "st1 k = None \<longleftrightarrow> st k = None \<and> k \<noteq> k0" for k
        by (auto simp: st1_def split: option.splits)
      have c1: "pw = filter (\<lambda>k. p_grad (objs k) \<noteq> None) (k0 # ks)"
        using i1 e Some by simp
      have c2: "length gs = length pw" using i2 e by simp
      have c3: "\<forall>k. step_count st' k = step_count st k" using i3 cnt by simp
      have c4: "\<forall>k. st' k = None \<longleftrightarrow> st k = None \<and> k \<notin> set pw"
        using i4 non e by auto
      show ?thesis using c1 c2 c3 c4 by blast
    qed
  qed
qed

lemma step_group_facts:
  assumes "step_group cd objs st g = Inr (objs', st')"
  shows "p_grad (objs' k) = p_grad (objs k)"
    and "step_count st' k
         = (f32_succ ^^ (if p_grad (objs k) \<noteq> None then count_list (group_params g) k else 0))
             (step_count st k)"
    and "st' k = None \<longleftrightarrow> st k = None \<and> \<not> (p_grad (objs k) \<noteq> None \<and> k \<in> set (group_params g))"
proof -
  from assms obtain st1 pw gs where
    c: "collect cd objs st (group_params g) = Inr (st1, pw, gs)"
    and m: "minato_objects objs st1 pw gs (group_capturable g) (group_beta g) (group_lr g)
              (group_weight_decay g) (group_maximize g) = Inr (objs', st')"
    by (auto simp: step_group_def split: sum.splits)
  from collect_facts [OF c]
  have pw: "pw = filter (\<lambda>k. p_grad (objs k) \<noteq> None) (group_params g)"
    and cnt: "\<And>k. step_count st1 k = step_count st k"
    and non: "\<And>k. st1 k = None \<longleftrightarrow> st k = None \<and> k \<notin> set pw"
    by blast+
  from minato_objects_facts [OF m]
  have g1: "\<And>k. p_grad (objs' k) = p_grad (objs k)"
    and g2: "\<And>k. step_count st' k = (f32_succ ^^ count_list pw k) (step_count st1 k)"
    and g3: "\<And>k. st' k = None \<longleftrightarrow> st1 k = None"
    by blast+
  show "p_grad (objs' k) = p_grad (objs k)" by (rule g1)
  show "step_count st' k
         = (f32_succ ^^ (if p_grad (objs k) \<noteq> None then count_list (group_params g) k else 0))
             (step_count st k)"
    using g2 [of k] cnt [of k] by (simp add: pw count_list_filter)
  show "st' k = None \<longleftrightarrow> st k = None \<and> \<not> (p_grad (objs k) \<noteq> None \<and> k \<in> set (group_params g))"
    using g3 [of k] non [of k] by (auto simp: pw)
qed

lemma minato_objects_frame:
  "minato_objects objs st ks gs capturable beta lr wd maximize = Inr (objs', st') \<Longrightarrow> k \<notin> set ks
   \<Longrightarrow> objs' k = objs k \<and> st' k = st k"
proof (induction ks arbitrary: objs st gs)
  case Nil
  then show ?case by simp
next
  case (Cons k0 ks)
  from Cons.prems(1) obtain g gs1 where gs: "gs = g # gs1"
    by (cases gs) simp_all
  from Cons.prems(1) gs obtain s where s: "st k0 = Some s"
    by (cases "st k0") simp_all
  from Cons.prems(1) gs s obtain p1 m1 t1 where
    u: "update_parameter (p_data (objs k0)) g (st_exp_avg s) (st_step s) beta lr wd maximize capturable
        = Inr (p1, m1, t1)"
    by (cases "update_parameter (p_data (objs k0)) g (st_exp_avg s) (st_step s) beta lr wd maximize capturable")
      auto
  from Cons.prems(1) gs s u
  have r: "minato_objects (objs(k0 := (objs k0)\<lparr>p_data := p1\<rparr>)) (st(k0 \<mapsto> \<lparr>st_step = t1, st_exp_avg = m1\<rparr>))
             ks gs1 capturable beta lr wd maximize = Inr (objs', st')"
    by simp
  from Cons.prems(2) have "k \<notin> set ks" "k \<noteq> k0" by simp_all
  with Cons.IH [OF r] show ?case by simp
qed

lemma collect_frame:
  "collect cd objs st ks = Inr (st', pw, gs) \<Longrightarrow> k \<notin> set pw \<Longrightarrow> st' k = st k"
proof (induction ks arbitrary: st pw gs)
  case Nil
  then show ?case by simp
next
  case (Cons k0 ks)
  show ?case
  proof (cases "p_grad (objs k0)")
    case None
    with Cons.prems(1) have "collect cd objs st ks = Inr (st', pw, gs)" by simp
    from Cons.IH [OF this Cons.prems(2)] show ?thesis .
  next
    case (Some gr)
    show ?thesis
    proof (cases gr)
      case (Sparse g)
      with Some Cons.prems show ?thesis by simp
    next
      case (Dense g)
      define st1 where "st1 = (case st k0 of None \<Rightarrow> st(k0 \<mapsto> init_state cd (objs k0)) | Some s \<Rightarrow> st)"
      from Cons.prems(1) Some Dense obtain pw1 gs1 where
        r: "collect cd objs st1 ks = Inr (st', pw1, gs1)" and e: "pw = k0 # pw1"
        by (auto simp: st1_def split: sum.splits)
      from Cons.prems(2) e have k: "k \<notin> set pw1" "k \<noteq> k0" by simp_all
      from Cons.IH [OF r k(1)] have "st' k = st1 k" .
      with k(2) show ?thesis by (simp add: st1_def split: option.splits)
    qed
  qed
qed

lemma step_group_frame:
  assumes "step_group cd objs st g = Inr (objs', st')"
    and "\<not> (p_grad (objs k) \<noteq> None \<and> k \<in> set (group_params g))"
  shows "st' k = st k"
proof -
  from assms(1) obtain st1 pw gs where
    c: "collect cd objs st (group_params g) = Inr (st1, pw, gs)"
    and m: "minato_objects objs st1 pw gs (group_capturable g) (group_beta g) (group_lr g)
              (group_weight_decay g) (group_maximize g) = Inr (objs', st')"
    by (auto simp: step_group_def split: sum.splits)
  from collect_facts [OF c] have "pw = filter (\<lambda>k. p_grad (objs k) \<noteq> None) (group_params g)"
    by blast
  with assms(2) have k: "k \<notin> set pw" by auto
  from minato_objects_frame [OF m k] collect_frame [OF c k] show ?thesis by simp
qed

lemma funpow_twice: "(f ^^ a) ((f ^^ b) x) = (f ^^ (b + a)) x"
  by (subst add.commute) (simp add: funpow_add)

lemma step_groups_facts:
  "step_groups cd objs st gs = Inr (objs', st') \<Longrightarrow>
     p_grad (objs' k) = p_grad (objs k)
   \<and> step_count st' k
       = (f32_succ ^^ (if p_grad (objs k) \<noteq> None then count_list (concat (map group_params gs)) k else 0))
           (step_count st k)
   \<and> (st' k = None \<longleftrightarrow>
        st k = None \<and> \<not> (p_grad (objs k) \<noteq> None \<and> k \<in> set (concat (map group_params gs))))
   \<and> (\<not> (p_grad (objs k) \<noteq> None \<and> k \<in> set (concat (map group_params gs))) \<longrightarrow> st' k = st k)"
proof (induction gs arbitrary: objs st)
  case Nil
  then show ?case by simp
next
  case (Cons g gs)
  from Cons.prems obtain objs1 st1 where
    sg: "step_group cd objs st g = Inr (objs1, st1)"
    and r: "step_groups cd objs1 st1 gs = Inr (objs', st')"
    by (auto split: sum.splits)
  note f = step_group_facts [OF sg, of k]
  note fr = step_group_frame [OF sg, of k]
  from Cons.IH [OF r]
  have i1: "p_grad (objs' k) = p_grad (objs1 k)"
    and i2: "step_count st' k
       = (f32_succ ^^ (if p_grad (objs1 k) \<noteq> None then count_list (concat (map group_params gs)) k else 0))
           (step_count st1 k)"
    and i3: "st' k = None \<longleftrightarrow>
        st1 k = None \<and> \<not> (p_grad (objs1 k) \<noteq> None \<and> k \<in> set (concat (map group_params gs)))"
    and i4: "\<not> (p_grad (objs1 k) \<noteq> None \<and> k \<in> set (concat (map group_params gs))) \<longrightarrow> st' k = st1 k"
    by blast+
  have c1: "p_grad (objs' k) = p_grad (objs k)"
    using i1 f(1) by simp
  have c2: "step_count st' k
       = (f32_succ ^^ (if p_grad (objs k) \<noteq> None then count_list (concat (map group_params (g # gs))) k else 0))
           (step_count st k)"
    using i2 f(1) f(2) by (simp add: funpow_twice)
  have c3: "st' k = None \<longleftrightarrow>
        st k = None \<and> \<not> (p_grad (objs k) \<noteq> None \<and> k \<in> set (concat (map group_params (g # gs))))"
    using i3 f(1) f(3) by auto
  have c4: "\<not> (p_grad (objs k) \<noteq> None \<and> k \<in> set (concat (map group_params (g # gs)))) \<longrightarrow> st' k = st k"
    using i4 f(1) fr by auto
  show ?case using c1 c2 c3 c4 by blast
qed

lemma step_facts:
  assumes "step (set_grads grads objs) opt = Inr (objs', opt')"
  shows "param_groups opt' = param_groups opt"
    and "objs' = set_grads grads objs'"
    and "step_count (state opt') k
         = (f32_succ ^^ (if grads k \<noteq> None then count_list (all_pids opt) k else 0))
             (step_count (state opt) k)"
    and "state opt' k = None \<longleftrightarrow>
         state opt k = None \<and> \<not> (grads k \<noteq> None \<and> k \<in> set (all_pids opt))"
    and "grads k = None \<Longrightarrow> state opt' k = state opt k"
proof -
  from assms obtain st' where
    r: "step_groups (defaults_capturable opt) (set_grads grads objs) (state opt) (param_groups opt)
        = Inr (objs', st')"
    and e: "opt' = opt\<lparr>state := st'\<rparr>"
    by (auto simp: step_def split: sum.splits)
  have g: "p_grad (set_grads grads objs k) = grads k" for k
    by (simp add: set_grads_def)
  show "param_groups opt' = param_groups opt" by (simp add: e)
  have "p_grad (objs' j) = grads j" for j
    using step_groups_facts [OF r, of j] g [of j] by simp
  then show "objs' = set_grads grads objs'"
    by (auto simp: set_grads_def fun_eq_iff)
  from step_groups_facts [OF r, of k]
  show "step_count (state opt') k
         = (f32_succ ^^ (if grads k \<noteq> None then count_list (all_pids opt) k else 0))
             (step_count (state opt) k)"
    and "state opt' k = None \<longleftrightarrow>
         state opt k = None \<and> \<not> (grads k \<noteq> None \<and> k \<in> set (all_pids opt))"
    by (simp_all add: e g all_pids_def)
  show "state opt' k = state opt k" if "grads k = None"
    using step_groups_facts [OF r, of k] that by (simp add: e g)
qed

lemma train_steps_count:
  "train_steps objs opt gradss = Inr (objs', opt') \<Longrightarrow> list_all (\<lambda>grads. grads k \<noteq> None) gradss \<Longrightarrow>
     all_pids opt' = all_pids opt
   \<and> step_count (state opt') k
       = (f32_succ ^^ (count_list (all_pids opt) k * length gradss)) (step_count (state opt) k)
   \<and> (state opt' k = None \<longleftrightarrow> state opt k = None \<and> (gradss = [] \<or> k \<notin> set (all_pids opt)))"
proof (induction gradss arbitrary: objs opt)
  case Nil
  then show ?case by simp
next
  case (Cons grads rest)
  from Cons.prems(1) obtain objs1 opt1 where
    s: "step (set_grads grads objs) opt = Inr (objs1, opt1)"
    and r: "train_steps objs1 opt1 rest = Inr (objs', opt')"
    by (auto split: sum.splits)
  from Cons.prems(2) have g: "grads k \<noteq> None" and gs: "list_all (\<lambda>grads. grads k \<noteq> None) rest"
    by simp_all
  note f = step_facts [OF s]
  have p: "all_pids opt1 = all_pids opt"
    using f(1) by (simp add: all_pids_def)
  from Cons.IH [OF r gs]
  have i1: "all_pids opt' = all_pids opt1"
    and i2: "step_count (state opt') k
       = (f32_succ ^^ (count_list (all_pids opt1) k * length rest)) (step_count (state opt1) k)"
    and i3: "state opt' k = None \<longleftrightarrow> state opt1 k = None \<and> (rest = [] \<or> k \<notin> set (all_pids opt1))"
    by blast+
  have c1: "all_pids opt' = all_pids opt" using i1 p by simp
  have c2: "step_count (state opt') k
       = (f32_succ ^^ (count_list (all_pids opt) k * length (grads # rest))) (step_count (state opt) k)"
    using i2 f(3) [of k] g p by (simp add: funpow_twice add.commute)
  have c3: "state opt' k = None \<longleftrightarrow>
            state opt k = None \<and> (grads # rest = [] \<or> k \<notin> set (all_pids opt))"
    using i3 f(4) [of k] g p by auto
  show ?case using c1 c2 c3 by blast
qed

lemma f32_succ_count: "n \<le> 2 ^ 24 \<Longrightarrow> (f32_succ ^^ n) 0 = n"
  by (simp add: f32_succ_funpow)

lemma set_grads_zero_grads:
  "set_grads zero_grads (set_grads zero_grads objs) = set_grads zero_grads objs"
  by (simp add: set_grads_def)

lemma step_fresh:
  "step (set_grads zero_grads unit_parameters) (fresh_optimizer [0])
   = Inr (set_grads zero_grads unit_parameters,
          (fresh_optimizer [0])\<lparr>state :=
             [0 \<mapsto> \<lparr>st_step = \<lparr>count = f32_succ 0, step_is_cuda = False\<rparr>,
                     st_exp_avg = \<lparr>vals = [0], is_cuda = False\<rparr>\<rparr>]\<rparr>)"
  by (simp add: step_def step_group_def fresh_optimizer_def set_grads_def unit_parameters_def
      zero_grads_def init_state_def update_parameter_def Let_def add_scaled_def expand_to_def
      mul_scalar_def sign_step_def addcmul_def sign_t_def ratio_of_def clamp_max_def div_scalar_def
      abs_t_def fun_upd_idem_iff)

lemma step_counting:
  "step (set_grads zero_grads unit_parameters)
     ((fresh_optimizer [0])\<lparr>state :=
        [0 \<mapsto> \<lparr>st_step = \<lparr>count = c, step_is_cuda = False\<rparr>,
                st_exp_avg = \<lparr>vals = [0], is_cuda = False\<rparr>\<rparr>]\<rparr>)
   = Inr (set_grads zero_grads unit_parameters,
          (fresh_optimizer [0])\<lparr>state :=
             [0 \<mapsto> \<lparr>st_step = \<lparr>count = f32_succ c, step_is_cuda = False\<rparr>,
                     st_exp_avg = \<lparr>vals = [0], is_cuda = False\<rparr>\<rparr>]\<rparr>)"
  by (simp add: step_def step_group_def fresh_optimizer_def set_grads_def unit_parameters_def
      zero_grads_def init_state_def update_parameter_def Let_def add_scaled_def expand_to_def
      mul_scalar_def sign_step_def addcmul_def sign_t_def ratio_of_def clamp_max_def div_scalar_def
      abs_t_def fun_upd_idem_iff)

lemma train_steps_counting:
  "train_steps (set_grads zero_grads unit_parameters)
     ((fresh_optimizer [0])\<lparr>state :=
        [0 \<mapsto> \<lparr>st_step = \<lparr>count = c, step_is_cuda = False\<rparr>,
                st_exp_avg = \<lparr>vals = [0], is_cuda = False\<rparr>\<rparr>]\<rparr>)
     (replicate n zero_grads)
   = Inr (set_grads zero_grads unit_parameters,
          (fresh_optimizer [0])\<lparr>state :=
             [0 \<mapsto> \<lparr>st_step = \<lparr>count = (f32_succ ^^ n) c, step_is_cuda = False\<rparr>,
                     st_exp_avg = \<lparr>vals = [0], is_cuda = False\<rparr>\<rparr>]\<rparr>)"
proof (induction n arbitrary: c)
  case 0
  show ?case by simp
next
  case (Suc n)
  show ?case
    by (simp only: replicate_Suc train_steps.simps set_grads_zero_grads step_counting
        sum.case prod.case Suc.IH funpow_Suc_right o_apply)
qed

lemma counter_after_fresh:
  "counter_after unit_parameters (fresh_optimizer [0]) (replicate n zero_grads) 0
   = Inr (min n (2 ^ 24))"
proof (cases n)
  case 0
  then show ?thesis
    by (simp add: counter_after_def step_count_def fresh_optimizer_def)
next
  case (Suc m)
  have "train_steps unit_parameters (fresh_optimizer [0]) (replicate (Suc m) zero_grads)
        = Inr (set_grads zero_grads unit_parameters,
          (fresh_optimizer [0])\<lparr>state :=
             [0 \<mapsto> \<lparr>st_step = \<lparr>count = (f32_succ ^^ m) (f32_succ 0), step_is_cuda = False\<rparr>,
                     st_exp_avg = \<lparr>vals = [0], is_cuda = False\<rparr>\<rparr>]\<rparr>)"
    by (simp only: replicate_Suc train_steps.simps step_fresh sum.case prod.case
        train_steps_counting)
  then have "counter_after unit_parameters (fresh_optimizer [0]) (replicate (Suc m) zero_grads) 0
        = Inr ((f32_succ ^^ Suc m) 0)"
    by (simp add: counter_after_def step_count_def funpow_swap1)
  then show ?thesis using Suc by (simp only: f32_succ_funpow)
qed

lemma minato_objects_by_value:
  assumes "distinct ks" and "length gs = length ks" and "\<forall>k\<in>set ks. st k \<noteq> None"
  shows "case minato (map (\<lambda>k. p_data (objs k)) ks) gs (map (\<lambda>k. st_exp_avg (the (st k))) ks)
                (map (\<lambda>k. st_step (the (st k))) ks) capturable beta lr wd maximize of
           Inl e \<Rightarrow> minato_objects objs st ks gs capturable beta lr wd maximize = Inl e
         | Inr (ps, ms, ts) \<Rightarrow>
             (\<exists>objs' st'. minato_objects objs st ks gs capturable beta lr wd maximize = Inr (objs', st')
                \<and> map (\<lambda>k. p_data (objs' k)) ks = ps
                \<and> map (\<lambda>k. st_exp_avg (the (st' k))) ks = ms
                \<and> map (\<lambda>k. st_step (the (st' k))) ks = ts)"
  using assms
proof (induction ks arbitrary: objs st gs)
  case Nil
  then show ?case by (simp add: minato_def)
next
  case (Cons k0 ks)
  from Cons.prems(2) obtain g gs1 where gs: "gs = g # gs1" and len: "length gs1 = length ks"
    by (cases gs) simp_all
  from Cons.prems(3) obtain s where s: "st k0 = Some s" by auto
  from Cons.prems(1) have k0: "k0 \<notin> set ks" and d: "distinct ks" by simp_all
  let ?u = "update_parameter (p_data (objs k0)) g (st_exp_avg s) (st_step s) beta lr wd maximize capturable"
  show ?case
  proof (cases ?u)
    case (Inl e)
    then show ?thesis using gs s by (simp add: minato_def)
  next
    case (Inr r)
    obtain p1 m1 t1 where r: "r = (p1, m1, t1)" by (cases r)
    let ?objs1 = "objs(k0 := (objs k0)\<lparr>p_data := p1\<rparr>)"
    let ?st1 = "st(k0 \<mapsto> \<lparr>st_step = t1, st_exp_avg = m1\<rparr>)"
    have same: "map (\<lambda>k. p_data (?objs1 k)) ks = map (\<lambda>k. p_data (objs k)) ks"
      "map (\<lambda>k. st_exp_avg (the (?st1 k))) ks = map (\<lambda>k. st_exp_avg (the (st k))) ks"
      "map (\<lambda>k. st_step (the (?st1 k))) ks = map (\<lambda>k. st_step (the (st k))) ks"
      using k0 by (auto simp: map_eq_conv)
    have all: "\<forall>k\<in>set ks. ?st1 k \<noteq> None"
      using Cons.prems(3) by simp
    note ih = Cons.IH [OF d len all, of ?objs1, unfolded same]
    have obj: "minato_objects objs st (k0 # ks) gs capturable beta lr wd maximize
               = minato_objects ?objs1 ?st1 ks gs1 capturable beta lr wd maximize"
      using gs s Inr r by simp
    let ?rest = "minato (map (\<lambda>k. p_data (objs k)) ks) gs1 (map (\<lambda>k. st_exp_avg (the (st k))) ks)
                   (map (\<lambda>k. st_step (the (st k))) ks) capturable beta lr wd maximize"
    show ?thesis
    proof (cases ?rest)
      case (Inl e)
      with ih have "minato_objects ?objs1 ?st1 ks gs1 capturable beta lr wd maximize = Inl e"
        by simp
      with obj Inl Inr r gs s show ?thesis by (simp add: minato_def)
    next
      case (Inr q)
      obtain ps ms ts where q: "q = (ps, ms, ts)" by (cases q)
      from ih Inr q obtain objs' st' where
        o: "minato_objects ?objs1 ?st1 ks gs1 capturable beta lr wd maximize = Inr (objs', st')"
        and v: "map (\<lambda>k. p_data (objs' k)) ks = ps"
          "map (\<lambda>k. st_exp_avg (the (st' k))) ks = ms"
          "map (\<lambda>k. st_step (the (st' k))) ks = ts"
        by auto
      from minato_objects_frame [OF o k0]
      have "p_data (objs' k0) = p1" "st' k0 = Some \<lparr>st_step = t1, st_exp_avg = m1\<rparr>"
        by simp_all
      with obj o v Inr q \<open>?u = Inr r\<close> r gs s show ?thesis by (simp add: minato_def)
    qed
  qed
qed

lemma update_parameter_no_index_error:
  "update_parameter param grad exp_avg step_t beta lr wd maximize capturable \<noteq> Inl IndexError"
  by (auto simp: update_parameter_def Let_def sign_step_def float_neg_def add_scaled_def addcmul_def
      split: if_splits sum.splits option.splits prod.splits)

lemma minato_objects_no_index_error:
  "length gs = length ks \<Longrightarrow> \<forall>k\<in>set ks. st k \<noteq> None
   \<Longrightarrow> minato_objects objs st ks gs capturable beta lr wd maximize \<noteq> Inl IndexError"
proof (induction ks arbitrary: objs st gs)
  case Nil
  then show ?case by simp
next
  case (Cons k0 ks)
  from Cons.prems(1) obtain g gs1 where gs: "gs = g # gs1" and len: "length gs1 = length ks"
    by (cases gs) simp_all
  from Cons.prems(2) obtain s where s: "st k0 = Some s" by auto
  let ?u = "update_parameter (p_data (objs k0)) g (st_exp_avg s) (st_step s) beta lr wd maximize capturable"
  show ?case
  proof (cases ?u)
    case (Inl e)
    with update_parameter_no_index_error [of "p_data (objs k0)" g "st_exp_avg s" "st_step s"
        beta lr wd maximize capturable]
    show ?thesis using gs s by simp
  next
    case (Inr r)
    obtain p1 m1 t1 where r: "r = (p1, m1, t1)" by (cases r)
    have "\<forall>k\<in>set ks. (st(k0 \<mapsto> \<lparr>st_step = t1, st_exp_avg = m1\<rparr>)) k \<noteq> None"
      using Cons.prems(2) by simp
    from Cons.IH [OF len this]
    have "minato_objects (objs(k0 := (objs k0)\<lparr>p_data := p1\<rparr>))
            (st(k0 \<mapsto> \<lparr>st_step = t1, st_exp_avg = m1\<rparr>)) ks gs1 capturable beta lr wd maximize
          \<noteq> Inl IndexError" .
    moreover have "minato_objects objs st (k0 # ks) gs capturable beta lr wd maximize
          = minato_objects (objs(k0 := (objs k0)\<lparr>p_data := p1\<rparr>))
              (st(k0 \<mapsto> \<lparr>st_step = t1, st_exp_avg = m1\<rparr>)) ks gs1 capturable beta lr wd maximize"
      using gs s Inr r by simp
    ultimately show ?thesis by simp
  qed
qed

lemma collect_no_index_error: "collect cd objs st ks \<noteq> Inl IndexError"
proof (induction ks arbitrary: st)
  case Nil
  show ?case by simp
next
  case (Cons k0 ks)
  show ?case
    using Cons.IH by (auto split: option.splits gradient.splits sum.splits)
qed

lemma step_group_no_index_error: "step_group cd objs st g \<noteq> Inl IndexError"
proof (cases "collect cd objs st (group_params g)")
  case (Inl e)
  with collect_no_index_error [of cd objs st "group_params g"] show ?thesis
    by (simp add: step_group_def)
next
  case (Inr r)
  obtain st1 pw gs where r: "r = (st1, pw, gs)" by (cases r)
  from collect_facts [OF Inr [unfolded r]]
  have "length gs = length pw" and "\<forall>k\<in>set pw. st1 k \<noteq> None"
    by blast+
  from minato_objects_no_index_error [OF this] show ?thesis
    using Inr r by (simp add: step_group_def)
qed

text \<open>
  C7 (as amended): after \<open>n\<close> calls of \<^verbatim>\<open>step\<close> that return, in each of which the parameter
  \<open>k\<close> had a dense gradient, the step counter of \<open>k\<close> is the float32 result of adding \<open>1\<close>
  as many times as \<open>n\<close> times the number of places at which the groups list \<open>k\<close>. For a
  parameter that is listed once and had no state before, and \<open>n \<le> 2^24\<close>, the counter is
  exactly \<open>n\<close>. The state (counter and moment together) exists from the first such call on,
  and a call in which the parameter has no gradient leaves its state as it was.
\<close>

theorem step_counter_counts_calls:
  assumes "train_steps objs opt gradss = Inr (objs', opt')"
    and "list_all (\<lambda>grads. \<exists>g. grads k = Some (Dense g)) gradss"
  shows "step_count (state opt') k
           = (f32_succ ^^ (count_list (all_pids opt) k * length gradss)) (step_count (state opt) k)
       \<and> (state opt k = None \<and> count_list (all_pids opt) k = 1 \<and> length gradss \<le> 2 ^ 24
            \<longrightarrow> step_count (state opt') k = length gradss \<and> (state opt' k = None \<longleftrightarrow> gradss = []))
       \<and> (step (set_grads grads objs) opt = Inr (objs1, opt1) \<and> grads k = None
            \<longrightarrow> state opt1 k = state opt k)"
proof -
  from assms(2) have "list_all (\<lambda>grads. grads k \<noteq> None) gradss"
    by (auto simp: list_all_iff)
  from train_steps_count [OF assms(1) this]
  have n: "step_count (state opt') k
           = (f32_succ ^^ (count_list (all_pids opt) k * length gradss)) (step_count (state opt) k)"
    and c: "state opt' k = None \<longleftrightarrow> state opt k = None \<and> (gradss = [] \<or> k \<notin> set (all_pids opt))"
    by blast+
  have once: "step_count (state opt') k = length gradss \<and> (state opt' k = None \<longleftrightarrow> gradss = [])"
    if "state opt k = None" "count_list (all_pids opt) k = 1" "length gradss \<le> 2 ^ 24"
  proof -
    from that(2) have "k \<in> set (all_pids opt)"
      by (metis count_list_0_iff zero_neq_one)
    with c that(1) have "state opt' k = None \<longleftrightarrow> gradss = []" by simp
    moreover from n that have "step_count (state opt') k = length gradss"
      by (simp add: step_count_def f32_succ_count)
    ultimately show ?thesis by simp
  qed
  have lazy: "state opt1 k = state opt k"
    if "step (set_grads grads objs) opt = Inr (objs1, opt1)" "grads k = None"
    using step_facts(5) [OF that] .
  show ?thesis using n once lazy by blast
qed

theorem step_counter_counts_calls_witness:
  "counter_after unit_parameters (fresh_optimizer [0]) [zero_grads, zero_grads] 0 = Inr 2"
proof -
  have "\<exists>r. train_steps unit_parameters (fresh_optimizer [0]) [zero_grads, zero_grads] = Inr r"
    by (simp add: step_fresh set_grads_zero_grads step_counting)
  then obtain objs' opt' where
    r: "train_steps unit_parameters (fresh_optimizer [0]) [zero_grads, zero_grads] = Inr (objs', opt')"
    by (metis surj_pair)
  have g: "list_all (\<lambda>grads. \<exists>g. grads (0::nat) = Some (Dense g)) [zero_grads, zero_grads]"
    by (simp add: zero_grads_def)
  have h: "state (fresh_optimizer [0]) 0 = None \<and> count_list (all_pids (fresh_optimizer [0])) 0 = 1
           \<and> length [zero_grads, zero_grads] \<le> 2 ^ 24"
    by (simp add: fresh_optimizer_def all_pids_def)
  from step_counter_counts_calls [OF r g] h
  have "step_count (state opt') 0 = length [zero_grads, zero_grads]"
    by blast
  with r show ?thesis by (simp add: counter_after_def)
qed

text \<open>
  The claim as first stated fails twice: a parameter that a group lists twice is counted
  twice in one call, and after \<open>2^24 + 1\<close> calls the float32 counter of a parameter that is
  listed once stands at \<open>2^24\<close>.
\<close>

theorem step_counter_counterexample:
  "counter_after unit_parameters (fresh_optimizer [0, 0]) [zero_grads] 0 = Inr 2
   \<and> counter_after unit_parameters (fresh_optimizer [0]) (replicate 16777217 zero_grads) 0
       = Inr 16777216"
proof -
  have twice: "counter_after unit_parameters (fresh_optimizer [0, 0]) [zero_grads] 0 = Inr 2"
    by (simp add: counter_after_def step_count_def step_def step_group_def fresh_optimizer_def
        set_grads_def unit_parameters_def zero_grads_def init_state_def update_parameter_def Let_def
        add_scaled_def expand_to_def mul_scalar_def sign_step_def addcmul_def sign_t_def
        ratio_of_def clamp_max_def div_scalar_def abs_t_def f32_succ_below)
  have "min (16777217::nat) (2 ^ 24) = 16777216" by simp
  with counter_after_fresh [of 16777217]
  have stuck: "counter_after unit_parameters (fresh_optimizer [0]) (replicate 16777217 zero_grads) 0
       = Inr 16777216"
    by (simp only:)
  from twice stuck show ?thesis by (rule conjI)
qed

subsection \<open>Trainer\<close>








subsection \<open>Learning-rate schedule\<close>

















end
